theory Spec2Isabelle
  imports Main
begin

section \<open>Go library functions called by cmd/flags.go\<close>

text \<open>
  A Go string is a sequence of bytes, here a \<^typ>\<open>string\<close>. Every separator the
  program splits on (comma, space, colon, at sign, newline, slash) is a single ASCII byte,
  which in UTF-8 never occurs inside a longer code point, so splitting byte by byte is
  what the rune-wise library functions do.
\<close>

text \<open>\<^verbatim>\<open>strings.Split(s, sep)\<close> for a separator of one byte: every separator ends a
  piece, so the result has one more element than \<open>s\<close> has separators. \<open>splitFrom\<close>
  cuts at every byte satisfying \<open>f\<close>; \<open>cur\<close> is the piece being read.\<close>

fun splitFrom :: "(char \<Rightarrow> bool) \<Rightarrow> string \<Rightarrow> string \<Rightarrow> string list" where
  "splitFrom f cur [] = [cur]"
| "splitFrom f cur (c # s) =
     (if f c then cur # splitFrom f [] s else splitFrom f (cur @ [c]) s)"

definition strings_Split :: "string \<Rightarrow> char \<Rightarrow> string list" where
  "strings_Split s sep = splitFrom (\<lambda>c. c = sep) [] s"

text \<open>\<^verbatim>\<open>strings.FieldsFunc(s, f)\<close>: the maximal runs of bytes that do not satisfy
  \<open>f\<close>; \<open>cur\<close> is the field being read.\<close>

fun fieldsFrom :: "(char \<Rightarrow> bool) \<Rightarrow> string \<Rightarrow> string \<Rightarrow> string list" where
  "fieldsFrom f cur [] = (if cur = [] then [] else [cur])"
| "fieldsFrom f cur (c # s) =
     (if f c then (if cur = [] then fieldsFrom f [] s else cur # fieldsFrom f [] s)
      else fieldsFrom f (cur @ [c]) s)"

definition strings_FieldsFunc :: "string \<Rightarrow> (char \<Rightarrow> bool) \<Rightarrow> string list" where
  "strings_FieldsFunc s f = fieldsFrom f [] s"

text \<open>\<^verbatim>\<open>strings.Join(elems, sep)\<close>.\<close>

fun strings_Join :: "string list \<Rightarrow> string \<Rightarrow> string" where
  "strings_Join [] sep = []"
| "strings_Join [e] sep = e"
| "strings_Join (e # es) sep = e @ sep @ strings_Join es sep"

text \<open>\<^verbatim>\<open>strings.TrimRight(s, cutset)\<close>: drops every trailing byte of the cutset.\<close>

definition strings_TrimRight :: "string \<Rightarrow> string \<Rightarrow> string" where
  "strings_TrimRight s cutset = rev (dropWhile (\<lambda>c. c \<in> set cutset) (rev s))"

text \<open>\<^verbatim>\<open>filepath.Base(path)\<close> on a system whose separator is the slash: trailing
  slashes are stripped, then the last element is taken; the empty path gives a dot and a
  path of slashes only gives one slash.\<close>

definition filepath_Base :: "string \<Rightarrow> string" where
  "filepath_Base path =
     (if path = [] then ''.''
      else (let stripped = rev (dropWhile (\<lambda>c. c = CHR ''/'') (rev path));
                element = rev (takeWhile (\<lambda>c. c \<noteq> CHR ''/'') (rev stripped))
            in if element = [] then ''/'' else element))"

text \<open>The characters the format strings of the program contain and a string literal
  here cannot: the apostrophe and the newline.\<close>

definition apostrophe :: string where
  "apostrophe = [CHR 0x27]"

definition newline :: string where
  "newline = [CHR 0x0A]"

section \<open>The property store and the process\<close>

text \<open>The store holds dynamically typed values: a string, a boolean, or the string-keyed
  mapping (Go's \<^verbatim>\<open>map[string]string\<close>) that \<^verbatim>\<open>cmdOptionAdapterStates\<close> writes.\<close>

datatype pvalue = PString string | PBool bool | PMap "string \<Rightarrow> string option"

type_synonym store = "string \<Rightarrow> pvalue option"

text \<open>How a call leaves the process: still running, ended by \<^verbatim>\<open>PrintError\<close> with a
  diagnostic, or ended by \<^verbatim>\<open>Print\<close> with a message and an exit status.\<close>

datatype status = Running | Fatal string | Printed string int

text \<open>Modelled from the spec: the accessors \<^verbatim>\<open>GetProperty\<close>,
  \<^verbatim>\<open>IsPropertyEnabled\<close> and \<^verbatim>\<open>AddProperty\<close>, which flags.go calls and does not
  define. The spec (4.3): \<^verbatim>\<open>GetProperty(name)\<close> is the string, empty if absent or
  not string-typed; \<^verbatim>\<open>IsPropertyEnabled(name)\<close> is a boolean presence-and-true check;
  \<^verbatim>\<open>AddProperty(name, value)\<close> overwrites and always succeeds.\<close>

definition GetProperty :: "store \<Rightarrow> string \<Rightarrow> string" where
  "GetProperty config name = (case config name of Some (PString s) \<Rightarrow> s | _ \<Rightarrow> [])"

definition IsPropertyEnabled :: "store \<Rightarrow> string \<Rightarrow> bool" where
  "IsPropertyEnabled config name = (case config name of Some (PBool b) \<Rightarrow> b | _ \<Rightarrow> False)"

definition AddProperty :: "store \<Rightarrow> string \<Rightarrow> pvalue \<Rightarrow> store" where
  "AddProperty config name v = config(name \<mapsto> v)"

text \<open>Modelled from the spec: the primitives \<^verbatim>\<open>PrintError\<close> and \<^verbatim>\<open>Print\<close>, which
  flags.go calls and does not define. The spec (4.4): a fatal failure prints a diagnostic
  and terminates the process with a non-zero status. \<^verbatim>\<open>Print(message, status)\<close> is
  the print-and-exit primitive behind it: the version action, which the spec calls terminal
  and gives exit code 0, is \<^verbatim>\<open>Print(..., 0)\<close>, and \<^verbatim>\<open>cmdOptionVersion\<close> indexes
  \<^verbatim>\<open>versionInfo[1]\<close> after a \<^verbatim>\<open>Print\<close> that ran because there is no such element.
  Neither touches the store.\<close>

definition PrintError :: "string \<Rightarrow> store \<Rightarrow> status \<times> store" where
  "PrintError message config = (Fatal message, config)"

definition Print :: "string \<Rightarrow> int \<Rightarrow> store \<Rightarrow> status \<times> store" where
  "Print message code config = (Printed message code, config)"

section \<open>cmdOptionAdapterStates\<close>

definition propertyOptions :: "string list" where
  "propertyOptions = [''powered'', ''scan'', ''discoverable'', ''pairable'']"

definition stateOptions :: "string list" where
  "stateOptions = [''yes'', ''no'', ''y'', ''n'', ''on'', ''off'']"

text \<open>The function literal given to \<^verbatim>\<open>strings.FieldsFunc\<close>.\<close>

definition isSeparator :: "char \<Rightarrow> bool" where
  "isSeparator r = (r = CHR '' '' \<or> r = CHR '':'')"

text \<open>The local variables the loop updates: \<^verbatim>\<open>properties\<close> and \<^verbatim>\<open>sequence\<close>.\<close>

type_synonym locals = "(string \<Rightarrow> string option) \<times> string list"

text \<open>One iteration of the loop over the tokens. \<open>Inl\<close> carries the message of the
  \<^verbatim>\<open>PrintError\<close> call that ends the process in that iteration; the search through
  \<^verbatim>\<open>propertyOptions\<close> that jumps to \<^verbatim>\<open>CheckState\<close> on the first equal element is
  the membership test.\<close>

definition tokenStep :: "string \<Rightarrow> locals \<Rightarrow> string + locals" where
  "tokenStep ps vars =
     (let property = strings_FieldsFunc ps isSeparator in
      if length property \<noteq> 2 then
        Inl (''Provided property:state format '' @ apostrophe @ ps @ apostrophe
             @ '' is incorrect.'')
      else if property ! 0 \<notin> set propertyOptions then
        Inl (''Provided property '' @ apostrophe @ property ! 0 @ apostrophe
             @ '' is incorrect.'' @ newline @ ''Valid properties are '' @ apostrophe
             @ strings_Join propertyOptions '', '' @ ''.'' @ apostrophe)
      else
        (let state = property ! 1 in
         if state = ''yes'' \<or> state = ''y'' \<or> state = ''on'' then
           Inr ((fst vars)(property ! 0 \<mapsto> ''yes''), snd vars @ [property ! 0])
         else if state = ''no'' \<or> state = ''n'' \<or> state = ''off'' then
           Inr ((fst vars)(property ! 0 \<mapsto> ''no''), snd vars @ [property ! 0])
         else
           Inl (''Provided state '' @ apostrophe @ state @ apostrophe @ '' for property ''
                @ apostrophe @ property ! 0 @ apostrophe @ '' is incorrect.'' @ newline
                @ ''Valid states are '' @ apostrophe @ strings_Join stateOptions '', ''
                @ apostrophe @ ''.'')))"

fun tokenLoop :: "string list \<Rightarrow> locals \<Rightarrow> string + locals" where
  "tokenLoop [] vars = Inr vars"
| "tokenLoop (ps # rest) vars =
     (case tokenStep ps vars of Inl message \<Rightarrow> Inl message | Inr vars' \<Rightarrow> tokenLoop rest vars')"

definition cmdOptionAdapterStates :: "store \<Rightarrow> status \<times> store" where
  "cmdOptionAdapterStates config =
     (let optionAdapterStates = GetProperty config ''adapter-states'' in
      if optionAdapterStates = [] then (Running, config)
      else
        (case tokenLoop (strings_Split optionAdapterStates CHR '','') (Map.empty, []) of
           Inl message \<Rightarrow> PrintError message config
         | Inr (properties, sequence) \<Rightarrow>
             (Running,
              AddProperty config ''adapter-states''
                (PMap (properties(''sequence'' \<mapsto> strings_Join sequence '',''))))))"

section \<open>cmdOptionGsm, cmdOptionListAdapters, cmdOptionVersion\<close>

text \<open>A statement after a call runs only if the call left the process running: a
  \<^verbatim>\<open>PrintError\<close> or \<^verbatim>\<open>Print\<close> in the body of an \<^verbatim>\<open>if\<close> with no
  \<^verbatim>\<open>return\<close> after it ends the function all the same.\<close>

definition andThen :: "status \<times> store \<Rightarrow> (store \<Rightarrow> status \<times> store) \<Rightarrow> status \<times> store" where
  "andThen result rest = (case fst result of Running \<Rightarrow> rest (snd result) | _ \<Rightarrow> result)"

definition cmdOptionGsm :: "store \<Rightarrow> status \<times> store" where
  "cmdOptionGsm config =
     (let optionGsmNumber = GetProperty config ''gsm-number'';
          optionGsmApn = GetProperty config ''gsm-apn''
      in andThen
           (if optionGsmNumber = [] \<and> optionGsmApn \<noteq> []
            then PrintError ''Specify GSM Number.'' config else (Running, config))
           (\<lambda>config.
              (let number = (if optionGsmNumber \<noteq> [] then optionGsmNumber else ''*99#'')
               in (Running,
                   AddProperty (AddProperty config ''gsm-apn'' (PString optionGsmApn))
                     ''gsm-number'' (PString number)))))"

text \<open>Of \<^verbatim>\<open>bluez.Adapter\<close>, declared in another package, the field the validator reads.\<close>

record adapter =
  Path :: string

text \<open>\<open>GetAdapters\<close> is what \<^verbatim>\<open>b.GetAdapters()\<close> returns.\<close>

definition cmdOptionListAdapters :: "adapter list \<Rightarrow> store \<Rightarrow> status \<times> store" where
  "cmdOptionListAdapters GetAdapters config =
     (if \<not> IsPropertyEnabled config ''list-adapters'' then (Running, config)
      else
        (let adapters =
               foldl (\<lambda>adapters adapter. adapters @ ''- '' @ filepath_Base (Path adapter) @ newline)
                 (''List of adapters:'' @ newline) GetAdapters
         in Print (strings_TrimRight adapters newline) 0 config))"

text \<open>\<open>Version\<close> is the package variable of that name, set at build time.\<close>

definition cmdOptionVersion :: "string \<Rightarrow> store \<Rightarrow> status \<times> store" where
  "cmdOptionVersion Version config =
     (if \<not> IsPropertyEnabled config ''version'' then (Running, config)
      else
        (let versionInfo = strings_Split Version CHR ''@'' in
         andThen
           (if length versionInfo < 2
            then Print (''Bluetuith v'' @ Version) 0 config else (Running, config))
           (\<lambda>config.
              Print (''Bluetuith v'' @ versionInfo ! 0 @ '' ('' @ versionInfo ! 1 @ '')'') 0
                config)))"

section \<open>parse\<close>

text \<open>An option of the command line. The \<^verbatim>\<open>Description\<close> field feeds the usage text
  only and is left out.\<close>

record Option =
  Name :: string
  Value :: string
  IsBoolean :: bool

definition options :: "Option list" where
  "options =
     [\<lparr>Name = ''list-adapters'', Value = [], IsBoolean = True\<rparr>,
      \<lparr>Name = ''adapter'', Value = [], IsBoolean = False\<rparr>,
      \<lparr>Name = ''receive-dir'', Value = [], IsBoolean = False\<rparr>,
      \<lparr>Name = ''gsm-apn'', Value = [], IsBoolean = False\<rparr>,
      \<lparr>Name = ''gsm-number'', Value = [], IsBoolean = False\<rparr>,
      \<lparr>Name = ''adapter-states'', Value = [], IsBoolean = False\<rparr>,
      \<lparr>Name = ''connect-bdaddr'', Value = [], IsBoolean = False\<rparr>,
      \<lparr>Name = ''theme'', Value = [], IsBoolean = False\<rparr>,
      \<lparr>Name = ''no-warning'', Value = [], IsBoolean = True\<rparr>,
      \<lparr>Name = ''no-help-display'', Value = [], IsBoolean = True\<rparr>,
      \<lparr>Name = ''confirm-on-quit'', Value = [], IsBoolean = True\<rparr>,
      \<lparr>Name = ''generate'', Value = [], IsBoolean = True\<rparr>,
      \<lparr>Name = ''version'', Value = [], IsBoolean = True\<rparr>]"

text \<open>A flag of the flag set: its current value and whether the command line set it.\<close>

record flag =
  FlagValue :: pvalue
  Changed :: bool

type_synonym flagset = "string \<Rightarrow> flag option"

text \<open>The loop that registers every option with the flag set: \<^verbatim>\<open>fs.Bool\<close> with
  default false for a boolean option, \<^verbatim>\<open>fs.String\<close> with the option's value
  otherwise.\<close>

fun registerOptions :: "Option list \<Rightarrow> flagset \<Rightarrow> flagset" where
  "registerOptions [] fs = fs"
| "registerOptions (option # rest) fs =
     (if IsBoolean option
      then registerOptions rest (fs(Name option \<mapsto> \<lparr>FlagValue = PBool False, Changed = False\<rparr>))
      else registerOptions rest
             (fs(Name option \<mapsto> \<lparr>FlagValue = PString (Value option), Changed = False\<rparr>)))"

text \<open>Modelled from the spec: \<^verbatim>\<open>config.Load(file.Provider(configFile), hjson.Parser())\<close>,
  the configuration library's loading of the file, which is not in flags.go. The spec
  (4.2): the file is loaded into the store; a missing or empty file is tolerated (no file
  content is not an error), a malformed file is an error. \<open>contents\<close> is the text of the
  file, \<open>None\<close> when there is no file; \<open>hjson\<close> is the parser of the structured text,
  which answers with its error or with the values of the file's keys.\<close>

definition loadFile ::
  "string option \<Rightarrow> (string \<Rightarrow> string + store) \<Rightarrow> store \<Rightarrow> string + store" where
  "loadFile contents hjson config =
     (case contents of
        None \<Rightarrow> Inr config
      | Some text \<Rightarrow>
          if text = [] then Inr config
          else (case hjson text of Inl err \<Rightarrow> Inl err | Inr fromFile \<Rightarrow> Inr (config ++ fromFile)))"

text \<open>Modelled from the spec: \<^verbatim>\<open>config.Load(posflag.Provider(fs, ".", config.Koanf), nil)\<close>,
  the configuration library's overlay of the flags, which is not in flags.go. The spec
  (4.2): flag-supplied values are overlaid onto the store, so that an explicit flag takes
  precedence over the file's value for the same key, and an unset flag never overwrites a
  file-provided value. Every descriptor is registered with a default (4.2), which is what
  an unset flag gives to a key the store lacks. The overlay reports no error.\<close>

definition loadFlags :: "flagset \<Rightarrow> store \<Rightarrow> string + store" where
  "loadFlags fs config =
     Inr (\<lambda>key. case fs key of
                  None \<Rightarrow> config key
                | Some f \<Rightarrow> if Changed f \<or> config key = None then Some (FlagValue f)
                            else config key)"

text \<open>\<open>ConfigPath\<close> is what \<^verbatim>\<open>ConfigPath("bluetuith.conf")\<close> returns: the path, or
  \<open>None\<close> for an error. \<open>fsParse\<close> is \<^verbatim>\<open>fs.Parse(os.Args[1:])\<close>, the flag library
  reading the argument vector into the registered flags: its error text, or the flag set
  with the values and the marks of the flags the command line sets. \<open>readFile\<close> is the
  file system: the text at a path, if there is a file.\<close>

definition parse ::
  "string option \<Rightarrow> (flagset \<Rightarrow> string + flagset) \<Rightarrow> (string \<Rightarrow> string option)
   \<Rightarrow> (string \<Rightarrow> string + store) \<Rightarrow> store \<Rightarrow> status \<times> store" where
  "parse ConfigPath fsParse readFile hjson config =
     (case ConfigPath of
        None \<Rightarrow> PrintError ''Cannot get config directory'' config
      | Some configFile \<Rightarrow>
          (case fsParse (registerOptions options Map.empty) of
             Inl err \<Rightarrow> PrintError err config
           | Inr fs \<Rightarrow>
               (case loadFile (readFile configFile) hjson config of
                  Inl err \<Rightarrow> PrintError err config
                | Inr loaded \<Rightarrow>
                    (case loadFlags fs loaded of
                       Inl err \<Rightarrow> PrintError err loaded
                     | Inr merged \<Rightarrow> (Running, merged)))))"

section \<open>Tokens: property field, state field, malformed tokens\<close>

text \<open>The property field and the state field of a token: the first and the second of the
  fields the separators leave.\<close>

definition tokenProperty :: "string \<Rightarrow> string" where
  "tokenProperty tok = strings_FieldsFunc tok isSeparator ! 0"

definition tokenState :: "string \<Rightarrow> string" where
  "tokenState tok = strings_FieldsFunc tok isSeparator ! 1"

text \<open>A malformed token: it does not split into exactly two fields, or its property field
  is not a property, or its state field is not a state.\<close>

definition malformed :: "string \<Rightarrow> bool" where
  "malformed tok =
     (length (strings_FieldsFunc tok isSeparator) \<noteq> 2
      \<or> tokenProperty tok \<notin> {''powered'', ''scan'', ''discoverable'', ''pairable''}
      \<or> tokenState tok \<notin> {''yes'', ''y'', ''on'', ''no'', ''n'', ''off''})"

text \<open>The canonical state of a synonym; any other string has none.\<close>

definition canonicalState :: "string \<Rightarrow> string option" where
  "canonicalState state =
     (if state \<in> {''yes'', ''y'', ''on''} then Some ''yes''
      else if state \<in> {''no'', ''n'', ''off''} then Some ''no''
      else None)"

definition tokenPair :: "string \<Rightarrow> string \<times> string" where
  "tokenPair tok = (tokenProperty tok, the (canonicalState (tokenState tok)))"

section \<open>The loop over the tokens\<close>

lemma tokenStep_malformed:
  "malformed tok \<Longrightarrow> \<exists>message. tokenStep tok vars = Inl message"
  by (auto simp: malformed_def tokenStep_def tokenProperty_def tokenState_def
      propertyOptions_def Let_def)

lemma tokenStep_wellformed:
  "\<not> malformed tok \<Longrightarrow>
   tokenStep tok vars =
     Inr ((fst vars)(tokenProperty tok \<mapsto> the (canonicalState (tokenState tok))),
          snd vars @ [tokenProperty tok])"
  by (auto simp: malformed_def tokenStep_def tokenProperty_def tokenState_def
      propertyOptions_def Let_def canonicalState_def)

lemma tokenLoop_malformed:
  "\<exists>tok \<in> set toks. malformed tok \<Longrightarrow> \<exists>message. tokenLoop toks vars = Inl message"
proof (induction toks arbitrary: vars)
  case Nil
  then show ?case by simp
next
  case (Cons tok toks)
  show ?case
  proof (cases "malformed tok")
    case True
    then obtain message where "tokenStep tok vars = Inl message"
      using tokenStep_malformed by blast
    then show ?thesis by simp
  next
    case False
    with Cons.prems have "\<exists>t \<in> set toks. malformed t" by simp
    then show ?thesis
      using Cons.IH tokenStep_wellformed [OF False, of vars] by simp
  qed
qed

lemma tokenLoop_wellformed:
  "\<forall>tok \<in> set toks. \<not> malformed tok \<Longrightarrow>
   tokenLoop toks (properties, sequence) =
     Inr (properties ++ map_of (rev (map tokenPair toks)), sequence @ map tokenProperty toks)"
proof (induction toks arbitrary: properties sequence)
  case Nil
  then show ?case by simp
next
  case (Cons tok toks)
  then have step: "tokenStep tok (properties, sequence) =
      Inr (properties(tokenProperty tok \<mapsto> the (canonicalState (tokenState tok))),
           sequence @ [tokenProperty tok])"
    using tokenStep_wellformed [of tok "(properties, sequence)"] by simp
  have "properties(tokenProperty tok \<mapsto> the (canonicalState (tokenState tok)))
          ++ map_of (rev (map tokenPair toks))
        = properties ++ map_of (rev (map tokenPair (tok # toks)))"
    by (simp add: tokenPair_def map_add_upd_left fun_eq_iff map_add_def split: option.splits)
  with Cons step show ?case by simp
qed

lemma tokenLoop_Inr_wellformed:
  "tokenLoop toks vars = Inr vars' \<Longrightarrow> \<forall>tok \<in> set toks. \<not> malformed tok"
  using tokenLoop_malformed [of toks vars] by auto

lemma map_of_rev_last:
  "map_of (rev (map f toks)) p =
     (if p \<in> set (map (fst \<circ> f) toks)
      then Some (snd (f (last (filter (\<lambda>t. fst (f t) = p) toks)))) else None)"
  by (induction toks rule: rev_induct) auto

lemma splitFrom_append:
  "\<forall>c \<in> set piece. \<not> f c \<Longrightarrow> splitFrom f cur (piece @ s) = splitFrom f (cur @ piece) s"
  by (induction piece arbitrary: cur) auto

lemma Split_Join:
  "es \<noteq> [] \<Longrightarrow> \<forall>e \<in> set es. sep \<notin> set e \<Longrightarrow>
   strings_Split (strings_Join es [sep]) sep = es"
proof (induction es "[sep]" rule: strings_Join.induct)
  case 1
  then show ?case by simp
next
  case (2 e)
  then show ?case
    using splitFrom_append [of e "\<lambda>c. c = sep" "[]" "[]"] by (auto simp: strings_Split_def)
next
  case (3 e v va)
  then show ?case 
    using splitFrom_append [of e "\<lambda>c. c = sep" "[]" "sep # strings_Join (v # va) [sep]"] by (auto simp: strings_Split_def)
qed


lemma splitFrom_not_Nil: "splitFrom f cur s \<noteq> []"
  by (induction s arbitrary: cur) auto

lemma tokenLoop_append:
  "\<forall>tok \<in> set pre. \<not> malformed tok \<Longrightarrow>
   tokenLoop (pre @ rest) (properties, sequence) =
     tokenLoop rest
       (properties ++ map_of (rev (map tokenPair pre)), sequence @ map tokenProperty pre)"
proof (induction pre arbitrary: properties sequence)
  case Nil
  then show ?case by simp
next
  case (Cons tok pre)
  then have step: "tokenStep tok (properties, sequence) =
      Inr (properties(tokenProperty tok \<mapsto> the (canonicalState (tokenState tok))),
           sequence @ [tokenProperty tok])"
    using tokenStep_wellformed [of tok "(properties, sequence)"] by simp
  have "properties(tokenProperty tok \<mapsto> the (canonicalState (tokenState tok)))
          ++ map_of (rev (map tokenPair pre))
        = properties ++ map_of (rev (map tokenPair (tok # pre)))"
    by (simp add: tokenPair_def fun_eq_iff map_add_def split: option.splits)
  with Cons step show ?case by simp
qed

lemma wellformed_property:
  "\<not> malformed tok \<Longrightarrow>
   tokenProperty tok \<in> {''powered'', ''scan'', ''discoverable'', ''pairable''}"
  by (simp add: malformed_def)

lemma wellformed_property_no_comma:
  "\<not> malformed tok \<Longrightarrow> CHR '','' \<notin> set (tokenProperty tok)"
  using wellformed_property [of tok] by auto

lemma wellformed_property_not_sequence:
  "\<not> malformed tok \<Longrightarrow> tokenProperty tok \<noteq> ''sequence''"
  using wellformed_property [of tok] by auto

lemma wellformed_state:
  "\<not> malformed tok \<Longrightarrow> Some (the (canonicalState (tokenState tok))) = canonicalState (tokenState tok)"
  by (auto simp: malformed_def canonicalState_def)

lemma validator_wellformed:
  assumes "GetProperty config ''adapter-states'' = input" and "input \<noteq> []"
    and "\<forall>tok \<in> set (strings_Split input CHR '',''). \<not> malformed tok"
  shows "cmdOptionAdapterStates config =
    (Running,
     AddProperty config ''adapter-states''
       (PMap ((map_of (rev (map tokenPair (strings_Split input CHR '',''))))
               (''sequence'' \<mapsto>
                  strings_Join (map tokenProperty (strings_Split input CHR '','')) '',''))))"
  using assms tokenLoop_wellformed [of "strings_Split input CHR '',''" Map.empty "[]"]
  by (simp add: cmdOptionAdapterStates_def)

section \<open>Adapter states: rejection of malformed input\<close>

text \<open>
  C1. Whenever the adapter-states property is a non-empty string one of whose
  comma-separated tokens is malformed (it does not split into exactly two fields, or its
  property is not one of powered, scan, discoverable, pairable, or its state is not one of
  yes, y, on, no, n, off), the validator ends the process with a diagnostic and the store
  is the one it was given: nothing of the mapping is written. (The empty string is the
  option not supplied: it has no token.)
\<close>

theorem adapter_states_malformed_rejected:
  assumes "GetProperty config ''adapter-states'' = input" and "input \<noteq> []"
    and "tok \<in> set (strings_Split input CHR '','')" and "malformed tok"
  shows "\<exists>message. cmdOptionAdapterStates config = (Fatal message, config)"
proof -
  from assms(3,4) obtain message
    where "tokenLoop (strings_Split input CHR '','') (Map.empty, []) = Inl message"
    using tokenLoop_malformed by blast
  with assms(1,2) show ?thesis
    by (simp add: cmdOptionAdapterStates_def PrintError_def)
qed


text \<open>The third token of the spec's scenario names the property \<open>Pairable\<close>.\<close>

theorem adapter_states_malformed_rejected_witness:
  "GetProperty (Map.empty(''adapter-states'' \<mapsto> PString ''powered: yes, scan:off, Pairable:Yes''))
     ''adapter-states'' = ''powered: yes, scan:off, Pairable:Yes''
   \<and> '' Pairable:Yes'' \<in> set (strings_Split ''powered: yes, scan:off, Pairable:Yes'' CHR '','')
   \<and> malformed '' Pairable:Yes''
   \<and> (\<exists>message.
        cmdOptionAdapterStates
          (Map.empty(''adapter-states'' \<mapsto> PString ''powered: yes, scan:off, Pairable:Yes''))
        = (Fatal message,
           Map.empty(''adapter-states'' \<mapsto> PString ''powered: yes, scan:off, Pairable:Yes'')))"
proof -
  have input: "GetProperty
      (Map.empty(''adapter-states'' \<mapsto> PString ''powered: yes, scan:off, Pairable:Yes''))
      ''adapter-states'' = ''powered: yes, scan:off, Pairable:Yes''"
    by (simp add: GetProperty_def)
  have tok: "'' Pairable:Yes''
      \<in> set (strings_Split ''powered: yes, scan:off, Pairable:Yes'' CHR '','')"
    by (simp add: strings_Split_def)
  have bad: "malformed '' Pairable:Yes''"
    by (simp add: malformed_def tokenProperty_def tokenState_def strings_FieldsFunc_def
        isSeparator_def)
  from adapter_states_malformed_rejected [OF input _ tok bad] input tok bad
  show ?thesis by simp
qed

section \<open>Adapter states: the sequence and the mapping\<close>

text \<open>
  C3. Whenever every comma-separated token of a non-empty adapter-states string is well
  formed, the validator succeeds and stores a mapping whose recorded sequence, split at
  its commas, is the list of the tokens' property names: one entry for each token, in the
  order of the input, duplicates kept. For the property named by any token the mapping
  holds the canonical state of the last token that names this property.
\<close>

theorem adapter_states_sequence_and_mapping:
  assumes "GetProperty config ''adapter-states'' = input" and "input \<noteq> []"
    and "\<forall>tok \<in> set (strings_Split input CHR '',''). \<not> malformed tok"
  shows "\<exists>properties recorded.
    cmdOptionAdapterStates config
      = (Running, AddProperty config ''adapter-states'' (PMap properties))
    \<and> properties ''sequence'' = Some recorded
    \<and> strings_Split recorded CHR '','' = map tokenProperty (strings_Split input CHR '','')
    \<and> length (strings_Split recorded CHR '','') = length (strings_Split input CHR '','')
    \<and> (\<forall>tok \<in> set (strings_Split input CHR '','').
          properties (tokenProperty tok) =
            canonicalState (tokenState (last (filter (\<lambda>t. tokenProperty t = tokenProperty tok)
              (strings_Split input CHR '','')))))"
proof -
  define toks where "toks = strings_Split input CHR '',''"
  define properties where "properties =
    (map_of (rev (map tokenPair toks)))(''sequence'' \<mapsto> strings_Join (map tokenProperty toks) '','')"
  have wf: "\<forall>tok \<in> set toks. \<not> malformed tok"
    using assms(3) by (simp add: toks_def)
  have run: "cmdOptionAdapterStates config
      = (Running, AddProperty config ''adapter-states'' (PMap properties))"
    using validator_wellformed [OF assms] by (simp add: properties_def toks_def)
  have recorded: "properties ''sequence'' = Some (strings_Join (map tokenProperty toks) '','')"
    by (simp add: properties_def)
  have "toks \<noteq> []"
    by (simp add: toks_def strings_Split_def splitFrom_not_Nil)
  then have roundtrip: "strings_Split (strings_Join (map tokenProperty toks) '','') CHR '',''
      = map tokenProperty toks"
    using Split_Join [of "map tokenProperty toks" "CHR '',''"] wf wellformed_property_no_comma
    by simp
  have lastState: "properties (tokenProperty tok) =
      canonicalState (tokenState (last (filter (\<lambda>t. tokenProperty t = tokenProperty tok) toks)))"
    if "tok \<in> set toks" for tok
  proof -
    let ?l = "last (filter (\<lambda>t. tokenProperty t = tokenProperty tok) toks)"
    have "filter (\<lambda>t. tokenProperty t = tokenProperty tok) toks \<noteq> []"
      using that by (auto simp: filter_empty_conv)
    then have "?l \<in> set (filter (\<lambda>t. tokenProperty t = tokenProperty tok) toks)"
      by (rule last_in_set)
    then have "\<not> malformed ?l" using wf by simp
    then have canon: "Some (the (canonicalState (tokenState ?l))) = canonicalState (tokenState ?l)"
      by (rule wellformed_state)
    have "tokenProperty tok \<noteq> ''sequence''"
      using that wf wellformed_property_not_sequence by blast
    then have "properties (tokenProperty tok) = map_of (rev (map tokenPair toks)) (tokenProperty tok)"
      by (simp add: properties_def)
    also have "\<dots> = Some (the (canonicalState (tokenState ?l)))"
      using that map_of_rev_last [of tokenPair toks "tokenProperty tok"]
      by (auto simp: tokenPair_def)
    finally show ?thesis using canon by simp
  qed
  have "cmdOptionAdapterStates config
      = (Running, AddProperty config ''adapter-states'' (PMap properties))
    \<and> properties ''sequence'' = Some (strings_Join (map tokenProperty toks) '','')
    \<and> strings_Split (strings_Join (map tokenProperty toks) '','') CHR '','' = map tokenProperty toks
    \<and> length (strings_Split (strings_Join (map tokenProperty toks) '','') CHR '','') = length toks
    \<and> (\<forall>tok \<in> set toks.
          properties (tokenProperty tok) =
            canonicalState (tokenState (last (filter (\<lambda>t. tokenProperty t = tokenProperty tok)
              toks))))"
    using run recorded roundtrip lastState by simp
  then show ?thesis
    unfolding toks_def by blast
qed

text \<open>Three tokens, the first and the third naming the same property.\<close>

theorem adapter_states_sequence_and_mapping_witness:
  "GetProperty (Map.empty(''adapter-states'' \<mapsto> PString ''scan:off,powered:no,scan:y''))
     ''adapter-states'' = ''scan:off,powered:no,scan:y''
   \<and> strings_Split ''scan:off,powered:no,scan:y'' CHR '','' = [''scan:off'', ''powered:no'', ''scan:y'']
   \<and> \<not> malformed ''scan:off'' \<and> \<not> malformed ''powered:no'' \<and> \<not> malformed ''scan:y''
   \<and> (\<exists>properties recorded.
        cmdOptionAdapterStates (Map.empty(''adapter-states'' \<mapsto> PString ''scan:off,powered:no,scan:y''))
          = (Running,
             AddProperty (Map.empty(''adapter-states'' \<mapsto> PString ''scan:off,powered:no,scan:y''))
               ''adapter-states'' (PMap properties))
        \<and> properties ''sequence'' = Some recorded
        \<and> strings_Split recorded CHR '','' = [''scan'', ''powered'', ''scan'']
        \<and> properties ''scan'' = Some ''yes''
        \<and> properties ''powered'' = Some ''no'')"
proof -
  let ?config = "Map.empty(''adapter-states'' \<mapsto> PString ''scan:off,powered:no,scan:y'')"
  have input: "GetProperty ?config ''adapter-states'' = ''scan:off,powered:no,scan:y''"
    by (simp add: GetProperty_def)
  have toks: "strings_Split ''scan:off,powered:no,scan:y'' CHR '',''
      = [''scan:off'', ''powered:no'', ''scan:y'']"
    by (simp add: strings_Split_def)
  have fields: "strings_FieldsFunc ''scan:off'' isSeparator = [''scan'', ''off'']"
    "strings_FieldsFunc ''powered:no'' isSeparator = [''powered'', ''no'']"
    "strings_FieldsFunc ''scan:y'' isSeparator = [''scan'', ''y'']"
    by (simp_all add: strings_FieldsFunc_def isSeparator_def)
  have wf: "\<not> malformed ''scan:off''" "\<not> malformed ''powered:no''" "\<not> malformed ''scan:y''"
    by (simp_all add: malformed_def tokenProperty_def tokenState_def fields)
  have all: "\<forall>tok \<in> set (strings_Split ''scan:off,powered:no,scan:y'' CHR '',''). \<not> malformed tok"
    using wf by (simp add: toks)
  from adapter_states_sequence_and_mapping [OF input _ all]
  obtain properties recorded where
    run: "cmdOptionAdapterStates ?config
      = (Running, AddProperty ?config ''adapter-states'' (PMap properties))"
    and seq: "properties ''sequence'' = Some recorded"
    and split: "strings_Split recorded CHR '','' =
      map tokenProperty (strings_Split ''scan:off,powered:no,scan:y'' CHR '','')"
    and lastState: "\<forall>tok \<in> set (strings_Split ''scan:off,powered:no,scan:y'' CHR '','').
      properties (tokenProperty tok) =
        canonicalState (tokenState (last (filter (\<lambda>t. tokenProperty t = tokenProperty tok)
          (strings_Split ''scan:off,powered:no,scan:y'' CHR '',''))))"
    by auto
  have split': "strings_Split recorded CHR '','' = [''scan'', ''powered'', ''scan'']"
    using split by (simp add: toks tokenProperty_def fields)
  have "properties ''scan'' = Some ''yes''" "properties ''powered'' = Some ''no''"
    using lastState
    by (simp_all add: toks tokenProperty_def tokenState_def fields canonicalState_def)
  with input toks wf run seq split' show ?thesis by blast
qed

section \<open>Adapter states: the synonyms of a state\<close>

lemma fieldsFrom_splitFrom:
  "fieldsFrom f cur s = filter (\<lambda>field. field \<noteq> []) (splitFrom f cur s)"
  by (induction s arbitrary: cur) auto

lemma tokenStep_two_fields:
  assumes "strings_FieldsFunc tok isSeparator = [property, state]"
    and "property \<in> set propertyOptions"
  shows "tokenStep tok (properties, sequence) =
    (if state = ''yes'' \<or> state = ''y'' \<or> state = ''on''
     then Inr (properties(property \<mapsto> ''yes''), sequence @ [property])
     else if state = ''no'' \<or> state = ''n'' \<or> state = ''off''
     then Inr (properties(property \<mapsto> ''no''), sequence @ [property])
     else Inl (''Provided state '' @ apostrophe @ state @ apostrophe @ '' for property ''
               @ apostrophe @ property @ apostrophe @ '' is incorrect.'' @ newline
               @ ''Valid states are '' @ apostrophe @ ''yes, no, y, n, on, off''
               @ apostrophe @ ''.''))"
  using assms by (simp add: tokenStep_def stateOptions_def)

text \<open>
  C2. For a token that splits into a property of the fixed set and a state: if the state
  is one of yes, y, on, the iteration stores the canonical string yes for the property;
  if it is one of no, n, off, it stores the canonical string no; for any other state the
  iteration ends in the diagnostic that lists the valid states, and so does the
  validator, fatally and with the store untouched, when the tokens before this one are
  well formed.
\<close>

theorem state_synonyms_normalised:
  assumes "strings_FieldsFunc tok isSeparator = [property, state]"
    and "property \<in> set propertyOptions"
  shows "(state \<in> {''yes'', ''y'', ''on''} \<longrightarrow>
            tokenStep tok (properties, sequence)
              = Inr (properties(property \<mapsto> ''yes''), sequence @ [property]))
    \<and> (state \<in> {''no'', ''n'', ''off''} \<longrightarrow>
            tokenStep tok (properties, sequence)
              = Inr (properties(property \<mapsto> ''no''), sequence @ [property]))
    \<and> (state \<notin> {''yes'', ''y'', ''on'', ''no'', ''n'', ''off''} \<longrightarrow>
            tokenStep tok (properties, sequence)
              = Inl (''Provided state '' @ apostrophe @ state @ apostrophe @ '' for property ''
                     @ apostrophe @ property @ apostrophe @ '' is incorrect.'' @ newline
                     @ ''Valid states are '' @ apostrophe @ ''yes, no, y, n, on, off''
                     @ apostrophe @ ''.'')
            \<and> (\<forall>config pre post.
                  GetProperty config ''adapter-states'' \<noteq> []
                  \<and> strings_Split (GetProperty config ''adapter-states'') CHR '','' = pre @ tok # post
                  \<and> (\<forall>t \<in> set pre. \<not> malformed t)
                  \<longrightarrow> cmdOptionAdapterStates config
                        = (Fatal (''Provided state '' @ apostrophe @ state @ apostrophe
                                  @ '' for property '' @ apostrophe @ property @ apostrophe
                                  @ '' is incorrect.'' @ newline @ ''Valid states are ''
                                  @ apostrophe @ ''yes, no, y, n, on, off'' @ apostrophe @ ''.''),
                           config)))"
proof (intro conjI impI allI)
  assume "state \<in> {''yes'', ''y'', ''on''}"
  then show "tokenStep tok (properties, sequence)
      = Inr (properties(property \<mapsto> ''yes''), sequence @ [property])"
    using tokenStep_two_fields [OF assms] by auto
next
  assume "state \<in> {''no'', ''n'', ''off''}"
  then show "tokenStep tok (properties, sequence)
      = Inr (properties(property \<mapsto> ''no''), sequence @ [property])"
    using tokenStep_two_fields [OF assms] by auto
next
  assume "state \<notin> {''yes'', ''y'', ''on'', ''no'', ''n'', ''off''}"
  then show "tokenStep tok (properties, sequence)
      = Inl (''Provided state '' @ apostrophe @ state @ apostrophe @ '' for property ''
             @ apostrophe @ property @ apostrophe @ '' is incorrect.'' @ newline
             @ ''Valid states are '' @ apostrophe @ ''yes, no, y, n, on, off''
             @ apostrophe @ ''.'')"
    using tokenStep_two_fields [OF assms] by auto
next
  fix config pre post
  assume bad: "state \<notin> {''yes'', ''y'', ''on'', ''no'', ''n'', ''off''}"
    and input: "GetProperty config ''adapter-states'' \<noteq> []
      \<and> strings_Split (GetProperty config ''adapter-states'') CHR '','' = pre @ tok # post
      \<and> (\<forall>t \<in> set pre. \<not> malformed t)"
  let ?message = "''Provided state '' @ apostrophe @ state @ apostrophe
      @ '' for property '' @ apostrophe @ property @ apostrophe
      @ '' is incorrect.'' @ newline @ ''Valid states are ''
      @ apostrophe @ ''yes, no, y, n, on, off'' @ apostrophe @ ''.''"
  have step: "tokenStep tok vars = Inl ?message" for vars
    using bad tokenStep_two_fields [OF assms, of "fst vars" "snd vars"] by auto
  have "tokenLoop (pre @ tok # post) (Map.empty, []) = Inl ?message"
    using input tokenLoop_append [of pre "tok # post" Map.empty "[]"] step by simp
  with input show "cmdOptionAdapterStates config = (Fatal ?message, config)"
    by (simp add: cmdOptionAdapterStates_def PrintError_def)
qed

theorem state_synonyms_normalised_witness:
  "strings_FieldsFunc ''scan:on'' isSeparator = [''scan'', ''on'']
   \<and> strings_FieldsFunc ''scan:n'' isSeparator = [''scan'', ''n'']
   \<and> strings_FieldsFunc ''scan:maybe'' isSeparator = [''scan'', ''maybe'']
   \<and> ''scan'' \<in> set propertyOptions
   \<and> tokenStep ''scan:on'' (Map.empty, []) = Inr (Map.empty(''scan'' \<mapsto> ''yes''), [''scan''])
   \<and> tokenStep ''scan:n'' (Map.empty, []) = Inr (Map.empty(''scan'' \<mapsto> ''no''), [''scan''])
   \<and> tokenStep ''scan:maybe'' (Map.empty, [])
       = Inl (''Provided state '' @ apostrophe @ ''maybe'' @ apostrophe @ '' for property ''
              @ apostrophe @ ''scan'' @ apostrophe @ '' is incorrect.'' @ newline
              @ ''Valid states are '' @ apostrophe @ ''yes, no, y, n, on, off''
              @ apostrophe @ ''.'')
   \<and> cmdOptionAdapterStates (Map.empty(''adapter-states'' \<mapsto> PString ''powered:y,scan:maybe''))
       = (Fatal (''Provided state '' @ apostrophe @ ''maybe'' @ apostrophe @ '' for property ''
                 @ apostrophe @ ''scan'' @ apostrophe @ '' is incorrect.'' @ newline
                 @ ''Valid states are '' @ apostrophe @ ''yes, no, y, n, on, off''
                 @ apostrophe @ ''.''),
          Map.empty(''adapter-states'' \<mapsto> PString ''powered:y,scan:maybe''))"
proof -
  let ?config = "Map.empty(''adapter-states'' \<mapsto> PString ''powered:y,scan:maybe'')"
  have fields: "strings_FieldsFunc ''scan:on'' isSeparator = [''scan'', ''on'']"
    "strings_FieldsFunc ''scan:n'' isSeparator = [''scan'', ''n'']"
    "strings_FieldsFunc ''scan:maybe'' isSeparator = [''scan'', ''maybe'']"
    "strings_FieldsFunc ''powered:y'' isSeparator = [''powered'', ''y'']"
    by (simp_all add: strings_FieldsFunc_def isSeparator_def)
  have scan: "''scan'' \<in> set propertyOptions"
    by (simp add: propertyOptions_def)
  have input: "GetProperty ?config ''adapter-states'' = ''powered:y,scan:maybe''"
    by (simp add: GetProperty_def)
  have toks: "strings_Split ''powered:y,scan:maybe'' CHR '','' = [''powered:y''] @ ''scan:maybe'' # []"
    by (simp add: strings_Split_def)
  have pre: "\<forall>t \<in> set [''powered:y'']. \<not> malformed t"
    by (simp add: malformed_def tokenProperty_def tokenState_def fields)
  have yes: "tokenStep ''scan:on'' (Map.empty, []) = Inr (Map.empty(''scan'' \<mapsto> ''yes''), [''scan''])"
    using state_synonyms_normalised [OF fields(1) scan, of Map.empty "[]"] by simp
  have no: "tokenStep ''scan:n'' (Map.empty, []) = Inr (Map.empty(''scan'' \<mapsto> ''no''), [''scan''])"
    using state_synonyms_normalised [OF fields(2) scan, of Map.empty "[]"] by simp
  have other: "''maybe'' \<notin> {''yes'', ''y'', ''on'', ''no'', ''n'', ''off''}"
    by simp
  note bad = state_synonyms_normalised [OF fields(3) scan, of Map.empty "[]",
      THEN conjunct2, THEN conjunct2, rule_format, OF other]
  have fatal: "cmdOptionAdapterStates ?config
     = (Fatal (''Provided state '' @ apostrophe @ ''maybe'' @ apostrophe @ '' for property ''
                 @ apostrophe @ ''scan'' @ apostrophe @ '' is incorrect.'' @ newline
                 @ ''Valid states are '' @ apostrophe @ ''yes, no, y, n, on, off''
                 @ apostrophe @ ''.''), ?config)"
    using bad [THEN conjunct2, rule_format, of ?config "[''powered:y'']" "[]"] input toks pre
    by simp
  from fields(1-3) scan yes no bad [THEN conjunct1] fatal show ?thesis
    by (intro conjI)
qed

section \<open>Adapter states: the stored structure\<close>

lemma dom_tokenPairs:
  "dom (map_of (rev (map tokenPair toks))) = set (map tokenProperty toks)"
  by (force simp: dom_map_of_conv_image_fst tokenPair_def)

lemma validator_Running_wellformed:
  assumes "GetProperty config ''adapter-states'' \<noteq> []"
    and "fst (cmdOptionAdapterStates config) = Running"
  shows "\<forall>tok \<in> set (strings_Split (GetProperty config ''adapter-states'') CHR '','').
           \<not> malformed tok"
proof (rule ccontr)
  assume "\<not> ?thesis"
  then obtain message where
    "tokenLoop (strings_Split (GetProperty config ''adapter-states'') CHR '','') (Map.empty, [])
       = Inl message"
    using tokenLoop_malformed by blast
  with assms show False
    by (simp add: cmdOptionAdapterStates_def PrintError_def)
qed

text \<open>
  C10. Whenever the validator succeeds on a non-empty adapter-states string, the value
  stored under the key adapter-states is one string-keyed mapping; its keys are exactly
  the property names of the tokens and the key sequence, and under the key sequence it
  holds the property names in the order of the tokens, joined by commas. The sequence
  lives in the same mapping as the states.
\<close>

theorem adapter_states_stored_mapping:
  assumes "GetProperty config ''adapter-states'' \<noteq> []"
    and "fst (cmdOptionAdapterStates config) = Running"
  shows "\<exists>mapping.
    snd (cmdOptionAdapterStates config) ''adapter-states'' = Some (PMap mapping)
    \<and> dom mapping =
        set (map tokenProperty (strings_Split (GetProperty config ''adapter-states'') CHR '',''))
        \<union> {''sequence''}
    \<and> mapping ''sequence'' =
        Some (strings_Join
                (map tokenProperty (strings_Split (GetProperty config ''adapter-states'') CHR '',''))
                '','')"
proof -
  define toks where "toks = strings_Split (GetProperty config ''adapter-states'') CHR '',''"
  define mapping where "mapping =
    (map_of (rev (map tokenPair toks)))(''sequence'' \<mapsto> strings_Join (map tokenProperty toks) '','')"
  have "\<forall>tok \<in> set toks. \<not> malformed tok"
    using validator_Running_wellformed [OF assms] by (simp add: toks_def)
  then have "cmdOptionAdapterStates config
      = (Running, AddProperty config ''adapter-states'' (PMap mapping))"
    using validator_wellformed [OF refl assms(1)] by (simp add: mapping_def toks_def)
  then have stored: "snd (cmdOptionAdapterStates config) ''adapter-states'' = Some (PMap mapping)"
    by (simp add: AddProperty_def)
  have keys: "dom mapping = set (map tokenProperty toks) \<union> {''sequence''}"
    unfolding mapping_def using dom_tokenPairs [of toks] by auto
  have "mapping ''sequence'' = Some (strings_Join (map tokenProperty toks) '','')"
    by (simp add: mapping_def)
  with stored keys show ?thesis
    unfolding toks_def by blast
qed

theorem adapter_states_stored_mapping_witness:
  "GetProperty (Map.empty(''adapter-states'' \<mapsto> PString ''scan:on,powered:off'')) ''adapter-states''
     = ''scan:on,powered:off''
   \<and> fst (cmdOptionAdapterStates (Map.empty(''adapter-states'' \<mapsto> PString ''scan:on,powered:off'')))
     = Running
   \<and> (\<exists>mapping.
        snd (cmdOptionAdapterStates (Map.empty(''adapter-states'' \<mapsto> PString ''scan:on,powered:off'')))
          ''adapter-states'' = Some (PMap mapping)
        \<and> dom mapping = {''scan'', ''powered'', ''sequence''}
        \<and> mapping ''sequence'' = Some ''scan,powered'')"
proof -
  let ?config = "Map.empty(''adapter-states'' \<mapsto> PString ''scan:on,powered:off'')"
  have input: "GetProperty ?config ''adapter-states'' = ''scan:on,powered:off''"
    by (simp add: GetProperty_def)
  have toks: "strings_Split ''scan:on,powered:off'' CHR '','' = [''scan:on'', ''powered:off'']"
    by (simp add: strings_Split_def)
  have fields: "strings_FieldsFunc ''scan:on'' isSeparator = [''scan'', ''on'']"
    "strings_FieldsFunc ''powered:off'' isSeparator = [''powered'', ''off'']"
    by (simp_all add: strings_FieldsFunc_def isSeparator_def)
  have run: "fst (cmdOptionAdapterStates ?config) = Running"
    by (simp add: cmdOptionAdapterStates_def input toks tokenStep_def fields propertyOptions_def)
  have nonempty: "GetProperty ?config ''adapter-states'' \<noteq> []"
    by (simp add: input)
  from adapter_states_stored_mapping [OF nonempty run]
  obtain mapping where
    "snd (cmdOptionAdapterStates ?config) ''adapter-states'' = Some (PMap mapping)"
    "dom mapping = set (map tokenProperty (strings_Split (GetProperty ?config ''adapter-states'') CHR '','')) \<union> {''sequence''}"
    "mapping ''sequence'' = Some (strings_Join
        (map tokenProperty (strings_Split (GetProperty ?config ''adapter-states'') CHR '','')) '','')"
    by blast
  then have "snd (cmdOptionAdapterStates ?config) ''adapter-states'' = Some (PMap mapping)
      \<and> dom mapping = {''scan'', ''powered'', ''sequence''}
      \<and> mapping ''sequence'' = Some ''scan,powered''"
    by (simp add: input toks tokenProperty_def fields insert_commute)
  with input run show ?thesis by blast
qed

section \<open>Adapter states: the separators of a token\<close>

text \<open>
  C9. The fields of a token are what is left when the token is cut at every space and
  every colon and the empty pieces are dropped. So a token whose non-empty pieces are
  exactly two, a property of the fixed set and a state with a canonical form, is accepted
  with that property and that state, however many separators stand between or around the
  two: the tokens \<open>powered::yes\<close>, \<open>powered : on\<close> and \<open>powered: yes\<close> all set
  \<open>powered\<close> to \<open>yes\<close>.
\<close>

theorem fields_cut_at_every_separator:
  "strings_FieldsFunc tok isSeparator
     = filter (\<lambda>field. field \<noteq> []) (splitFrom isSeparator [] tok)
   \<and> (filter (\<lambda>field. field \<noteq> []) (splitFrom isSeparator [] tok) = [property, state]
        \<and> property \<in> set propertyOptions \<and> canonicalState state = Some canonical
        \<longrightarrow> tokenStep tok (properties, sequence)
              = Inr (properties(property \<mapsto> canonical), sequence @ [property]))
   \<and> tokenStep ''powered::yes'' (properties, sequence)
       = Inr (properties(''powered'' \<mapsto> ''yes''), sequence @ [''powered''])
   \<and> tokenStep ''powered : on'' (properties, sequence)
       = Inr (properties(''powered'' \<mapsto> ''yes''), sequence @ [''powered''])
   \<and> tokenStep ''powered: yes'' (properties, sequence)
       = Inr (properties(''powered'' \<mapsto> ''yes''), sequence @ [''powered''])"
proof (intro conjI impI)
  show cut: "strings_FieldsFunc tok isSeparator
      = filter (\<lambda>field. field \<noteq> []) (splitFrom isSeparator [] tok)"
    by (simp add: strings_FieldsFunc_def fieldsFrom_splitFrom)
  assume "filter (\<lambda>field. field \<noteq> []) (splitFrom isSeparator [] tok) = [property, state]
        \<and> property \<in> set propertyOptions \<and> canonicalState state = Some canonical"
  then show "tokenStep tok (properties, sequence)
      = Inr (properties(property \<mapsto> canonical), sequence @ [property])"
    using cut tokenStep_two_fields [of tok property state properties sequence]
    by (auto simp: canonicalState_def split: if_splits)
next
  have "strings_FieldsFunc ''powered::yes'' isSeparator = [''powered'', ''yes'']"
    by (simp add: strings_FieldsFunc_def isSeparator_def)
  then show "tokenStep ''powered::yes'' (properties, sequence)
      = Inr (properties(''powered'' \<mapsto> ''yes''), sequence @ [''powered''])"
    by (simp add: tokenStep_def propertyOptions_def)
next
  have "strings_FieldsFunc ''powered : on'' isSeparator = [''powered'', ''on'']"
    by (simp add: strings_FieldsFunc_def isSeparator_def)
  then show "tokenStep ''powered : on'' (properties, sequence)
      = Inr (properties(''powered'' \<mapsto> ''yes''), sequence @ [''powered''])"
    by (simp add: tokenStep_def propertyOptions_def)
next
  have "strings_FieldsFunc ''powered: yes'' isSeparator = [''powered'', ''yes'']"
    by (simp add: strings_FieldsFunc_def isSeparator_def)
  then show "tokenStep ''powered: yes'' (properties, sequence)
      = Inr (properties(''powered'' \<mapsto> ''yes''), sequence @ [''powered''])"
    by (simp add: tokenStep_def propertyOptions_def)
qed

theorem fields_cut_at_every_separator_witness:
  "filter (\<lambda>field. field \<noteq> []) (splitFrom isSeparator [] '' pairable :: off '')
     = [''pairable'', ''off'']
   \<and> ''pairable'' \<in> set propertyOptions \<and> canonicalState ''off'' = Some ''no''
   \<and> tokenStep '' pairable :: off '' (Map.empty, [])
       = Inr (Map.empty(''pairable'' \<mapsto> ''no''), [''pairable''])"
proof -
  have pieces: "filter (\<lambda>field. field \<noteq> []) (splitFrom isSeparator [] '' pairable :: off '')
      = [''pairable'', ''off'']"
    by (simp add: isSeparator_def)
  have known: "''pairable'' \<in> set propertyOptions"
    by (simp add: propertyOptions_def)
  have canon: "canonicalState ''off'' = Some ''no''"
    by (simp add: canonicalState_def)
  from fields_cut_at_every_separator
    [of "'' pairable :: off ''" "''pairable''" "''off''" "''no''" Map.empty "[]"]
    pieces known canon
  show ?thesis by simp
qed

section \<open>The GSM parameters\<close>

text \<open>
  C4. Whatever the two input properties are: if gsm-number is empty and gsm-apn is not, the
  GSM validator ends the process with the diagnostic \<open>Specify GSM Number.\<close> and the store
  as it was; in every other case it succeeds, stores gsm-apn as it read it (empty or not)
  and stores as gsm-number the number it read, or \<open>*99#\<close> when that number is empty.
\<close>

theorem gsm_number_required_or_defaulted:
  "(GetProperty config ''gsm-number'' = [] \<and> GetProperty config ''gsm-apn'' \<noteq> []
      \<longrightarrow> cmdOptionGsm config = (Fatal ''Specify GSM Number.'', config))
   \<and> (\<not> (GetProperty config ''gsm-number'' = [] \<and> GetProperty config ''gsm-apn'' \<noteq> [])
      \<longrightarrow> cmdOptionGsm config =
            (Running,
             config(''gsm-apn'' \<mapsto> PString (GetProperty config ''gsm-apn''),
                    ''gsm-number'' \<mapsto>
                      PString (if GetProperty config ''gsm-number'' = [] then ''*99#''
                               else GetProperty config ''gsm-number''))))"
  by (simp add: cmdOptionGsm_def andThen_def PrintError_def AddProperty_def)

theorem gsm_number_required_or_defaulted_witness:
  "cmdOptionGsm (Map.empty(''gsm-apn'' \<mapsto> PString ''foo''))
     = (Fatal ''Specify GSM Number.'', Map.empty(''gsm-apn'' \<mapsto> PString ''foo''))
   \<and> cmdOptionGsm Map.empty
     = (Running, Map.empty(''gsm-apn'' \<mapsto> PString [], ''gsm-number'' \<mapsto> PString ''*99#''))
   \<and> cmdOptionGsm (Map.empty(''gsm-apn'' \<mapsto> PString ''foo'', ''gsm-number'' \<mapsto> PString ''555''))
     = (Running, Map.empty(''gsm-apn'' \<mapsto> PString ''foo'', ''gsm-number'' \<mapsto> PString ''555''))"
proof -
  have "cmdOptionGsm (Map.empty(''gsm-apn'' \<mapsto> PString ''foo''))
     = (Fatal ''Specify GSM Number.'', Map.empty(''gsm-apn'' \<mapsto> PString ''foo''))"
    using gsm_number_required_or_defaulted [of "Map.empty(''gsm-apn'' \<mapsto> PString ''foo'')"]
    by (simp add: GetProperty_def)
  moreover have "cmdOptionGsm Map.empty
     = (Running, Map.empty(''gsm-apn'' \<mapsto> PString [], ''gsm-number'' \<mapsto> PString ''*99#''))"
    using gsm_number_required_or_defaulted [of Map.empty]
    by (simp add: GetProperty_def)
  moreover have "cmdOptionGsm (Map.empty(''gsm-apn'' \<mapsto> PString ''foo'', ''gsm-number'' \<mapsto> PString ''555''))
     = (Running, Map.empty(''gsm-apn'' \<mapsto> PString ''foo'', ''gsm-number'' \<mapsto> PString ''555''))"
    using gsm_number_required_or_defaulted
      [of "Map.empty(''gsm-apn'' \<mapsto> PString ''foo'', ''gsm-number'' \<mapsto> PString ''555'')"]
    by (simp add: GetProperty_def)
  ultimately show ?thesis by simp
qed

section \<open>The version\<close>

lemma splitFrom_no_separator:
  "\<forall>c \<in> set s. \<not> f c \<Longrightarrow> splitFrom f cur s = [cur @ s]"
  using splitFrom_append [of s f cur "[]"] by simp

lemma Split_no_separator:
  "sep \<notin> set s \<Longrightarrow> strings_Split s sep = [s]"
  using splitFrom_no_separator [of s "\<lambda>c. c = sep" "[]"] by (auto simp: strings_Split_def)

lemma Split_first_two:
  assumes "sep \<notin> set a" and "sep \<notin> set b" and "rest = [] \<or> hd rest = sep"
  shows "\<exists>more. strings_Split (a @ sep # b @ rest) sep = a # b # more"
proof -
  have "\<forall>c \<in> set a. \<not> c = sep" and clean: "\<forall>c \<in> set b. \<not> c = sep"
    using assms by auto
  then have "splitFrom (\<lambda>c. c = sep) [] (a @ sep # b @ rest)
      = splitFrom (\<lambda>c. c = sep) a (sep # b @ rest)"
    using splitFrom_append [of a "\<lambda>c. c = sep" "[]" "sep # b @ rest"] by simp
  also have "\<dots> = a # splitFrom (\<lambda>c. c = sep) [] (b @ rest)"
    by simp
  also have "\<dots> = a # splitFrom (\<lambda>c. c = sep) b rest"
    using splitFrom_append [OF clean, of "[]" rest] by simp
  finally have split: "strings_Split (a @ sep # b @ rest) sep = a # splitFrom (\<lambda>c. c = sep) b rest"
    by (simp add: strings_Split_def)
  show ?thesis
  proof (cases rest)
    case Nil
    with split show ?thesis by simp
  next
    case (Cons c r)
    with assms(3) have "c = sep" by simp
    with split Cons show ?thesis by simp
  qed
qed

text \<open>
  C8. When the version property is enabled, the validator prints and ends the process with
  status 0, the store as it was. The text comes from splitting the encoded version at the
  at sign: with no at sign (no build segment) it is \<open>Bluetuith v\<close> and the version alone;
  with a build segment after the version (up to the end or to a further at sign) it is
  \<open>Bluetuith v\<close>, the version and the build in parentheses.
\<close>

theorem version_printed_with_or_without_build:
  assumes "IsPropertyEnabled config ''version''"
  shows "(\<exists>text. cmdOptionVersion Version config = (Printed text 0, config))
    \<and> (CHR ''@'' \<notin> set Version \<longrightarrow>
          cmdOptionVersion Version config = (Printed (''Bluetuith v'' @ Version) 0, config))
    \<and> (\<forall>version build rest.
          Version = version @ ''@'' @ build @ rest
          \<and> CHR ''@'' \<notin> set version \<and> CHR ''@'' \<notin> set build
          \<and> (rest = [] \<or> hd rest = CHR ''@'')
          \<longrightarrow> cmdOptionVersion Version config
                = (Printed (''Bluetuith v'' @ version @ '' ('' @ build @ '')'') 0, config))"
proof (intro conjI impI allI)
  show "\<exists>text. cmdOptionVersion Version config = (Printed text 0, config)"
    using assms by (simp add: cmdOptionVersion_def andThen_def Print_def Let_def)
next
  assume "CHR ''@'' \<notin> set Version"
  then have "strings_Split Version CHR ''@'' = [Version]"
    by (rule Split_no_separator)
  with assms show "cmdOptionVersion Version config
      = (Printed (''Bluetuith v'' @ Version) 0, config)"
    by (simp add: cmdOptionVersion_def andThen_def Print_def)
next
  fix version build rest
  assume "Version = version @ ''@'' @ build @ rest
      \<and> CHR ''@'' \<notin> set version \<and> CHR ''@'' \<notin> set build
      \<and> (rest = [] \<or> hd rest = CHR ''@'')"
  then obtain more where "strings_Split Version CHR ''@'' = version # build # more"
    using Split_first_two [of "CHR ''@''" version build rest] by auto
  with assms show "cmdOptionVersion Version config
      = (Printed (''Bluetuith v'' @ version @ '' ('' @ build @ '')'') 0, config)"
    by (simp add: cmdOptionVersion_def andThen_def Print_def)
qed

theorem version_printed_with_or_without_build_witness:
  "IsPropertyEnabled (Map.empty(''version'' \<mapsto> PBool True)) ''version''
   \<and> cmdOptionVersion ''0.2.3'' (Map.empty(''version'' \<mapsto> PBool True))
       = (Printed ''Bluetuith v0.2.3'' 0, Map.empty(''version'' \<mapsto> PBool True))
   \<and> cmdOptionVersion ''0.2.3@4f5e6a7'' (Map.empty(''version'' \<mapsto> PBool True))
       = (Printed ''Bluetuith v0.2.3 (4f5e6a7)'' 0, Map.empty(''version'' \<mapsto> PBool True))"
proof -
  let ?config = "Map.empty(''version'' \<mapsto> PBool True)"
  have enabled: "IsPropertyEnabled ?config ''version''"
    by (simp add: IsPropertyEnabled_def)
  have alone: "cmdOptionVersion ''0.2.3'' ?config = (Printed ''Bluetuith v0.2.3'' 0, ?config)"
    using version_printed_with_or_without_build [OF enabled, of "''0.2.3''"] by simp
  have "''0.2.3@4f5e6a7'' = ''0.2.3'' @ ''@'' @ ''4f5e6a7'' @ []
      \<and> CHR ''@'' \<notin> set ''0.2.3'' \<and> CHR ''@'' \<notin> set ''4f5e6a7''
      \<and> ([] = [] \<or> hd [] = CHR ''@'')"
    by simp
  then have "cmdOptionVersion ''0.2.3@4f5e6a7'' ?config
      = (Printed (''Bluetuith v'' @ ''0.2.3'' @ '' ('' @ ''4f5e6a7'' @ '')'') 0, ?config)"
    using version_printed_with_or_without_build [OF enabled, of "''0.2.3@4f5e6a7''"] by blast
  with enabled alone show ?thesis by simp
qed

section \<open>The list of adapters\<close>

lemma Base_not_empty: "filepath_Base path \<noteq> []"
  by (simp add: filepath_Base_def Let_def)

lemma Base_subset: "set (filepath_Base path) \<subseteq> set path \<union> {CHR ''.'', CHR ''/''}"
proof -
  have "set (takeWhile P (rev (rev (dropWhile Q (rev path))))) \<subseteq> set path" for P Q
    using set_takeWhileD [of _ P "dropWhile Q (rev path)"] set_dropWhileD [of _ Q "rev path"]
    by auto
  then show ?thesis
    by (auto simp: filepath_Base_def Let_def)
qed

lemma Base_no_newline: "CHR 0x0A \<notin> set path \<Longrightarrow> CHR 0x0A \<notin> set (filepath_Base path)"
  using Base_subset [of path] by auto

lemma foldl_append_concat:
  "foldl (\<lambda>acc x. acc @ g x) init xs = init @ concat (map g xs)"
  by (induction xs arbitrary: init) auto

lemma concat_lines_Join:
  "lines \<noteq> [] \<Longrightarrow> concat (map (\<lambda>l. l @ sep) lines) = strings_Join lines sep @ sep"
  by (induction lines sep rule: strings_Join.induct) auto

lemma Join_last:
  "lines \<noteq> [] \<Longrightarrow> \<forall>l \<in> set lines. l \<noteq> [] \<and> c \<notin> set l \<Longrightarrow>
   strings_Join lines [c] \<noteq> [] \<and> last (strings_Join lines [c]) \<noteq> c"
proof (induction lines "[c]" rule: strings_Join.induct)
  case 1
  then show ?case by simp
next
  case (2 e)
  then show ?case by auto
next
  case (3 e v va)
  then show ?case by auto
qed

lemma TrimRight_one:
  "s \<noteq> [] \<Longrightarrow> last s \<noteq> c \<Longrightarrow> strings_TrimRight (s @ [c]) [c] = s"
  by (cases s rule: rev_cases) (auto simp: strings_TrimRight_def)

lemma listing_foldl:
  "foldl (\<lambda>adapters adapter. adapters @ ''- '' @ filepath_Base (Path adapter) @ newline)
     (''List of adapters:'' @ newline) GetAdapters
   = (''List of adapters:'' @ newline)
     @ concat (map (\<lambda>adapter. ''- '' @ filepath_Base (Path adapter) @ newline) GetAdapters)"
  by (rule foldl_append_concat)

lemma listing_text:
  "foldl (\<lambda>adapters adapter. adapters @ ''- '' @ filepath_Base (Path adapter) @ newline)
     (''List of adapters:'' @ newline) GetAdapters
   = concat (map (\<lambda>l. l @ newline)
       (''List of adapters:'' # map (\<lambda>adapter. ''- '' @ filepath_Base (Path adapter)) GetAdapters))"
  unfolding listing_foldl by (simp add: comp_def)

text \<open>
  C7, as the code has it. When the list-adapters property is enabled, the validator prints
  the header and then the base path segment of every known adapter, one on each line (for
  paths without a newline), leaves the store as it was, and ends the process with status 0:
  it is a terminal action like the version, and no validator runs after it.
\<close>

theorem list_adapters_prints_and_ends:
  assumes "IsPropertyEnabled config ''list-adapters''"
  shows "cmdOptionListAdapters GetAdapters config =
      (Printed (strings_TrimRight
                  (''List of adapters:'' @ newline
                   @ concat (map (\<lambda>adapter. ''- '' @ filepath_Base (Path adapter) @ newline)
                       GetAdapters))
                  newline) 0,
       config)
    \<and> ((\<forall>adapter \<in> set GetAdapters. CHR 0x0A \<notin> set (Path adapter)) \<longrightarrow>
         (\<exists>text. cmdOptionListAdapters GetAdapters config = (Printed text 0, config)
            \<and> strings_Split text (CHR 0x0A) =
                ''List of adapters:''
                # map (\<lambda>adapter. ''- '' @ filepath_Base (Path adapter)) GetAdapters))"
proof (intro conjI impI)
  show "cmdOptionListAdapters GetAdapters config =
      (Printed (strings_TrimRight
                  (''List of adapters:'' @ newline
                   @ concat (map (\<lambda>adapter. ''- '' @ filepath_Base (Path adapter) @ newline)
                       GetAdapters))
                  newline) 0,
       config)"
    using assms unfolding cmdOptionListAdapters_def listing_foldl
    by (simp add: Print_def)
next
  assume clean: "\<forall>adapter \<in> set GetAdapters. CHR 0x0A \<notin> set (Path adapter)"
  define lines where "lines =
    ''List of adapters:'' # map (\<lambda>adapter. ''- '' @ filepath_Base (Path adapter)) GetAdapters"
  have nonempty: "lines \<noteq> []"
    by (simp add: lines_def)
  have each: "\<forall>l \<in> set lines. l \<noteq> [] \<and> CHR 0x0A \<notin> set l"
    using clean Base_no_newline by (auto simp: lines_def)
  have listing: "foldl (\<lambda>adapters adapter. adapters @ ''- '' @ filepath_Base (Path adapter) @ newline)
      (''List of adapters:'' @ newline) GetAdapters
      = strings_Join lines newline @ newline"
    using listing_text [of GetAdapters] concat_lines_Join [OF nonempty, of newline]
    by (simp add: lines_def)
  have "strings_TrimRight (strings_Join lines newline @ newline) newline = strings_Join lines newline"
    using Join_last [OF nonempty each] TrimRight_one [of "strings_Join lines [CHR 0x0A]" "CHR 0x0A"]
    by (simp add: newline_def)
  with assms have run: "cmdOptionListAdapters GetAdapters config
      = (Printed (strings_Join lines newline) 0, config)"
    unfolding cmdOptionListAdapters_def listing by (simp add: Print_def)
  have "strings_Split (strings_Join lines newline) (CHR 0x0A) = lines"
    using Split_Join [OF nonempty, of "CHR 0x0A"] each by (simp add: newline_def)
  with run show "\<exists>text. cmdOptionListAdapters GetAdapters config = (Printed text 0, config)
      \<and> strings_Split text (CHR 0x0A) =
          ''List of adapters:''
          # map (\<lambda>adapter. ''- '' @ filepath_Base (Path adapter)) GetAdapters"
    unfolding lines_def by blast
qed

theorem list_adapters_prints_and_ends_witness:
  "IsPropertyEnabled (Map.empty(''list-adapters'' \<mapsto> PBool True)) ''list-adapters''
   \<and> CHR 0x0A \<notin> set ''/org/bluez/hci0'' \<and> CHR 0x0A \<notin> set ''/org/bluez/hci1''
   \<and> (\<exists>text.
        cmdOptionListAdapters [\<lparr>Path = ''/org/bluez/hci0''\<rparr>, \<lparr>Path = ''/org/bluez/hci1''\<rparr>]
          (Map.empty(''list-adapters'' \<mapsto> PBool True))
          = (Printed text 0, Map.empty(''list-adapters'' \<mapsto> PBool True))
        \<and> strings_Split text (CHR 0x0A) = [''List of adapters:'', ''- hci0'', ''- hci1''])"
proof -
  let ?config = "Map.empty(''list-adapters'' \<mapsto> PBool True)"
  let ?adapters = "[\<lparr>Path = ''/org/bluez/hci0''\<rparr>, \<lparr>Path = ''/org/bluez/hci1''\<rparr>]"
  have enabled: "IsPropertyEnabled ?config ''list-adapters''"
    by (simp add: IsPropertyEnabled_def)
  have clean: "CHR 0x0A \<notin> set ''/org/bluez/hci0''" "CHR 0x0A \<notin> set ''/org/bluez/hci1''"
    by simp_all
  then have all: "\<forall>adapter \<in> set ?adapters. CHR 0x0A \<notin> set (Path adapter)"
    by simp
  have bases: "filepath_Base ''/org/bluez/hci0'' = ''hci0''"
    "filepath_Base ''/org/bluez/hci1'' = ''hci1''"
    by (simp_all add: filepath_Base_def)
  from list_adapters_prints_and_ends [OF enabled, of ?adapters, THEN conjunct2, THEN mp, OF all]
  obtain printed where "cmdOptionListAdapters ?adapters ?config = (Printed printed 0, ?config)"
    and "strings_Split printed (CHR 0x0A) =
      ''List of adapters:'' # map (\<lambda>adapter. ''- '' @ filepath_Base (Path adapter)) ?adapters"
    by blast
  then have "cmdOptionListAdapters ?adapters ?config = (Printed printed 0, ?config)
      \<and> strings_Split printed (CHR 0x0A) = [''List of adapters:'', ''- hci0'', ''- hci1'']"
    by (simp add: bases)
  with enabled clean show ?thesis by blast
qed

text \<open>With one adapter: the status after the validator is not \<open>Running\<close>, the process
  has ended with status 0, so option processing does not continue.\<close>

theorem list_adapters_continues_counterexample:
  "IsPropertyEnabled (Map.empty(''list-adapters'' \<mapsto> PBool True)) ''list-adapters''
   \<and> cmdOptionListAdapters [\<lparr>Path = ''/org/bluez/hci0''\<rparr>]
        (Map.empty(''list-adapters'' \<mapsto> PBool True))
      = (Printed (''List of adapters:'' @ newline @ ''- hci0'') 0,
         Map.empty(''list-adapters'' \<mapsto> PBool True))
   \<and> fst (cmdOptionListAdapters [\<lparr>Path = ''/org/bluez/hci0''\<rparr>]
            (Map.empty(''list-adapters'' \<mapsto> PBool True))) \<noteq> Running"
  by (simp add: IsPropertyEnabled_def cmdOptionListAdapters_def Print_def filepath_Base_def
      strings_TrimRight_def newline_def)

section \<open>Loading the file and the flags\<close>

lemma parse_after_flags:
  assumes "fsParse (registerOptions options Map.empty) = Inr fs"
  shows "parse (Some configFile) fsParse readFile hjson config =
    (case loadFile (readFile configFile) hjson config of
       Inl err \<Rightarrow> (Fatal err, config)
     | Inr loaded \<Rightarrow>
         (Running,
          (\<lambda>key. case fs key of
                    None \<Rightarrow> loaded key
                  | Some f \<Rightarrow> if Changed f \<or> loaded key = None then Some (FlagValue f)
                              else loaded key)))"
  using assms by (simp add: parse_def loadFlags_def PrintError_def split: sum.splits)

text \<open>
  C5. Once the config path is resolved and the flags are parsed, loading goes on to a
  running process when the config file is missing or empty: that is no error. A file with
  content that the parser of the structured text rejects ends the process with the
  parser's error, the store as it was.
\<close>

theorem config_file_missing_tolerated_malformed_fatal:
  assumes "fsParse (registerOptions options Map.empty) = Inr fs"
  shows "(readFile configFile = None \<or> readFile configFile = Some []
            \<longrightarrow> fst (parse (Some configFile) fsParse readFile hjson config) = Running)
    \<and> (\<forall>contents err.
          readFile configFile = Some contents \<and> contents \<noteq> [] \<and> hjson contents = Inl err
          \<longrightarrow> parse (Some configFile) fsParse readFile hjson config = (Fatal err, config))"
  unfolding parse_after_flags [where fsParse = fsParse and fs = fs, OF assms]
  by (auto simp: loadFile_def)

theorem config_file_missing_tolerated_malformed_fatal_witness:
  "fst (parse (Some ''/home/u/.config/bluetuith/bluetuith.conf'') Inr (\<lambda>path. None)
          (\<lambda>contents. Inl ''cannot parse'') Map.empty) = Running
   \<and> fst (parse (Some ''/home/u/.config/bluetuith/bluetuith.conf'') Inr (\<lambda>path. Some [])
          (\<lambda>contents. Inl ''cannot parse'') Map.empty) = Running
   \<and> parse (Some ''/home/u/.config/bluetuith/bluetuith.conf'') Inr (\<lambda>path. Some ''{adapter:'')
        (\<lambda>contents. Inl ''cannot parse'') Map.empty
      = (Fatal ''cannot parse'', Map.empty)"
proof -
  have flags: "Inr (registerOptions options Map.empty)
      = (Inr (registerOptions options Map.empty) :: string + flagset)"
    by simp
  have "fst (parse (Some ''/home/u/.config/bluetuith/bluetuith.conf'') Inr (\<lambda>path. None)
          (\<lambda>contents. Inl ''cannot parse'') Map.empty) = Running"
    using config_file_missing_tolerated_malformed_fatal
      [where fsParse = Inr and fs = "registerOptions options Map.empty"
         and readFile = "\<lambda>path. None" and hjson = "\<lambda>contents. Inl ''cannot parse''"
         and configFile = "''/home/u/.config/bluetuith/bluetuith.conf''"
         and config = Map.empty, OF flags]
    by simp
  moreover have "fst (parse (Some ''/home/u/.config/bluetuith/bluetuith.conf'') Inr
      (\<lambda>path. Some []) (\<lambda>contents. Inl ''cannot parse'') Map.empty) = Running"
    using config_file_missing_tolerated_malformed_fatal
      [where fsParse = Inr and fs = "registerOptions options Map.empty"
         and readFile = "\<lambda>path. Some []" and hjson = "\<lambda>contents. Inl ''cannot parse''"
         and configFile = "''/home/u/.config/bluetuith/bluetuith.conf''"
         and config = Map.empty, OF flags]
    by simp
  moreover have "parse (Some ''/home/u/.config/bluetuith/bluetuith.conf'') Inr
      (\<lambda>path. Some ''{adapter:'') (\<lambda>contents. Inl ''cannot parse'') Map.empty
      = (Fatal ''cannot parse'', Map.empty)"
    using config_file_missing_tolerated_malformed_fatal
      [where fsParse = Inr and fs = "registerOptions options Map.empty"
         and readFile = "\<lambda>path. Some ''{adapter:''"
         and hjson = "\<lambda>contents. Inl ''cannot parse''"
         and configFile = "''/home/u/.config/bluetuith/bluetuith.conf''"
         and config = Map.empty, OF flags]
    by simp
  ultimately show ?thesis by simp
qed

text \<open>
  C6. When the flags are parsed and the config file is read, the resolved store holds, for
  every key that an explicitly supplied flag and the file both give, the value of the flag;
  and for every key that the file gives and no explicitly supplied flag does, the value of
  the file.
\<close>

theorem flags_take_precedence_over_file:
  assumes "fsParse (registerOptions options Map.empty) = Inr fs"
    and "readFile configFile = Some contents" and "contents \<noteq> []"
    and "hjson contents = Inr fromFile"
  shows "\<exists>merged.
    parse (Some configFile) fsParse readFile hjson config = (Running, merged)
    \<and> (\<forall>key f v. fs key = Some f \<and> Changed f \<and> fromFile key = Some v
          \<longrightarrow> merged key = Some (FlagValue f))
    \<and> (\<forall>key v. fromFile key = Some v \<and> (fs key = None \<or> (\<exists>f. fs key = Some f \<and> \<not> Changed f))
          \<longrightarrow> merged key = Some v)"
  unfolding parse_after_flags [where fsParse = fsParse and fs = fs, OF assms(1)]
  using assms(2-4) by (auto simp: loadFile_def map_add_def)

theorem flags_take_precedence_over_file_witness:
  "registerOptions options Map.empty ''receive-dir''
     = Some \<lparr>FlagValue = PString [], Changed = False\<rparr>
   \<and> (\<exists>merged.
        parse (Some ''bluetuith.conf'')
          (\<lambda>fs. Inr (fs(''adapter'' \<mapsto> \<lparr>FlagValue = PString ''hci1'', Changed = True\<rparr>)))
          (\<lambda>path. Some ''{adapter: hci0, receive-dir: /tmp}'')
          (\<lambda>contents. Inr (Map.empty(''adapter'' \<mapsto> PString ''hci0'',
                                      ''receive-dir'' \<mapsto> PString ''/tmp'')))
          Map.empty
        = (Running, merged)
        \<and> merged ''adapter'' = Some (PString ''hci1'')
        \<and> merged ''receive-dir'' = Some (PString ''/tmp''))"
proof -
  let ?fs = "(registerOptions options Map.empty)
    (''adapter'' \<mapsto> \<lparr>FlagValue = PString ''hci1'', Changed = True\<rparr>)"
  let ?fsParse = "\<lambda>fs :: flagset. (Inr (fs(''adapter'' \<mapsto> \<lparr>FlagValue = PString ''hci1'', Changed = True\<rparr>))
    :: string + flagset)"
  let ?fromFile = "Map.empty(''adapter'' \<mapsto> PString ''hci0'', ''receive-dir'' \<mapsto> PString ''/tmp'')"
  have unset: "registerOptions options Map.empty ''receive-dir''
      = Some \<lparr>FlagValue = PString [], Changed = False\<rparr>"
    by (simp add: options_def)
  have flags: "?fsParse (registerOptions options Map.empty) = Inr ?fs"
    by simp
  have fileText: "(\<lambda>path :: string. Some ''{adapter: hci0, receive-dir: /tmp}'') ''bluetuith.conf''
      = Some ''{adapter: hci0, receive-dir: /tmp}''"
    by simp
  have filled: "''{adapter: hci0, receive-dir: /tmp}'' \<noteq> []"
    by simp
  have parsed: "(\<lambda>contents :: string. (Inr ?fromFile :: string + store))
      ''{adapter: hci0, receive-dir: /tmp}'' = Inr ?fromFile"
    by simp
  from flags_take_precedence_over_file
    [where fsParse = ?fsParse and fs = ?fs
       and readFile = "\<lambda>path. Some ''{adapter: hci0, receive-dir: /tmp}''"
       and hjson = "\<lambda>contents. Inr ?fromFile" and config = Map.empty,
     OF flags fileText filled parsed]
  obtain merged where run: "parse (Some ''bluetuith.conf'') ?fsParse
        (\<lambda>path. Some ''{adapter: hci0, receive-dir: /tmp}'') (\<lambda>contents. Inr ?fromFile) Map.empty
      = (Running, merged)"
    and explicit: "\<forall>key f v. ?fs key = Some f \<and> Changed f \<and> ?fromFile key = Some v
        \<longrightarrow> merged key = Some (FlagValue f)"
    and kept: "\<forall>key v. ?fromFile key = Some v
        \<and> (?fs key = None \<or> (\<exists>f. ?fs key = Some f \<and> \<not> Changed f))
        \<longrightarrow> merged key = Some v"
    by blast
  have "merged ''adapter'' = Some (PString ''hci1'')"
    using explicit [rule_format, of "''adapter''" "\<lparr>FlagValue = PString ''hci1'', Changed = True\<rparr>"
        "PString ''hci0''"] by simp
  moreover have "merged ''receive-dir'' = Some (PString ''/tmp'')"
    using kept [rule_format, of "''receive-dir''" "PString ''/tmp''"] unset by simp
  ultimately show ?thesis using unset run by blast
qed

end
